theory Spec2Isabelle
  imports Main "HOL-Library.Sublist"
begin

section \<open>The terminal of src/main.cpp: data\<close>

text \<open>
  The program is a read-eval loop over one global job table
  (\<^verbatim>\<open>std::unordered_set<int> pids\<close>). Every handler returns a \<^verbatim>\<open>CommandError\<close>.
  The model follows one process: what \<^verbatim>\<open>fork\<close> returns and whether an \<^verbatim>\<open>exec\<close> finds
  its program are given by the environment \<open>os\<close>. Writes to standard output
  (cursor, banners, listings, error messages) are not modelled.
\<close>

datatype CommandError =
    OK
  | INVALID_ARGUMENT_NUMBER
  | INVALID_ARGUMENT
  | UNKNOWN_COMMAND
  | INVALID_FILE_PATH
  | UNABLE_TO_OPEN_NOTEPAD
  | FORK_ERROR
  | INVALID_PROCESS_INPUT
  | INVALID_PID

text \<open>The two exceptions the code can meet: both are thrown by \<^verbatim>\<open>std::stoi\<close>.\<close>

datatype exception = invalid_argument | out_of_range

datatype undefined_behaviour = IndexOutOfRange | NullProgramName

text \<open>
  How a call ends in this process: it returns a value, an exception leaves it, a
  successful \<^verbatim>\<open>exec\<close> replaces the process image (nothing of the shell runs after
  it), or the C++ has no defined behaviour (\<^verbatim>\<open>tokens[0]\<close> of an empty vector, a
  null pointer as the program name of \<^verbatim>\<open>execvp\<close>).
\<close>

datatype 'a flow =
    Return 'a
  | Throw exception
  | ImageReplaced
  | Undefined undefined_behaviour

text \<open>
  What the process does to the outside, in order: every entry into
  \<^verbatim>\<open>createProcess\<close> with its tokens and priority, and the system calls
  \<^verbatim>\<open>fork\<close> (with the value it returned here), \<^verbatim>\<open>execvp\<close>/\<^verbatim>\<open>execlp\<close> (with the
  argument vector, \<open>None\<close> for a null pointer), \<^verbatim>\<open>kill(pid, SIGKILL)\<close> and
  \<^verbatim>\<open>setpriority(PRIO_PROCESS, pid, priority)\<close>.
\<close>

datatype event =
    CreateProcess "string list" int
  | Fork int
  | Exec "string option list"
  | Kill int
  | SetPriority int int

record shell =
  pids :: "int set"
  trace :: "event list"

text \<open>
  The environment. \<open>fork_returns\<close> is the value of the next \<^verbatim>\<open>fork()\<close> given
  everything done so far: \<open>-1\<close> when it fails, \<open>0\<close> when this process is the child,
  the child's pid in the parent.
\<close>

record os =
  fork_returns :: "event list \<Rightarrow> int"
  exec_succeeds :: "string \<Rightarrow> bool"
  is_regular_file :: "string \<Rightarrow> bool"
  can_open :: "string \<Rightarrow> bool"

type_synonym TerminalCommand = "os \<Rightarrow> string list \<Rightarrow> shell \<Rightarrow> CommandError flow \<times> shell"

definition log :: "event \<Rightarrow> shell \<Rightarrow> shell" where
  "log ev s = s\<lparr>trace := trace s @ [ev]\<rparr>"

section \<open>The tokenizer\<close>

text \<open>
  \<^verbatim>\<open>std::istringstream\<close>, as far as \<^verbatim>\<open>std::getline(iss, substring, ' ')\<close>
  reads it: the characters not yet extracted and the two state bits.
  \<open>getline\<close> fails at once on a stream that is not good; otherwise it extracts up to
  the delimiter (extracted, not stored) or to the end (eofbit), and sets failbit when
  it extracted nothing at all. The loop never reads the string of a call that failed,
  so the model returns the empty string there.
\<close>

record istringstream =
  buffer :: string
  eofbit :: bool
  failbit :: bool

text \<open>
  The extraction of \<open>getline\<close>, character by character: the line read, and what is
  left after the delimiter (\<open>None\<close> when the end of the input was reached first).
\<close>

fun extractLine :: "char \<Rightarrow> string \<Rightarrow> string \<times> string option" where
  "extractLine delim [] = ([], None)"
| "extractLine delim (c # cs) =
     (if c = delim then ([], Some cs)
      else case extractLine delim cs of (line, rest) \<Rightarrow> (c # line, rest))"

definition getline :: "istringstream \<Rightarrow> char \<Rightarrow> string \<times> istringstream" where
  "getline iss delim =
     (if eofbit iss \<or> failbit iss then ([], iss\<lparr>failbit := True\<rparr>)
      else case extractLine delim (buffer iss) of
             (line, None) \<Rightarrow>
               (line, iss\<lparr>buffer := [], eofbit := True, failbit := (line = [])\<rparr>)
           | (line, Some rest) \<Rightarrow> (line, iss\<lparr>buffer := rest\<rparr>))"

lemma extractLine_rest_shorter: "extractLine d b = (l, Some r) \<Longrightarrow> length r < length b"
  by (induction b arbitrary: l) (auto split: if_splits prod.splits)

lemma extractLine_end: "extractLine d b = (l, None) \<Longrightarrow> l = b"
  by (induction b arbitrary: l) (auto split: if_splits prod.splits)

lemma getline_decreases:
  assumes "getline iss d = (l, iss')" and "\<not> failbit iss'"
  shows "length (buffer iss') + (if eofbit iss' then 0 else 1)
           < length (buffer iss) + (if eofbit iss then 0 else 1)"
proof (cases "eofbit iss \<or> failbit iss")
  case True
  with assms show ?thesis by (auto simp: getline_def)
next
  case good: False
  obtain line rest where ex: "extractLine d (buffer iss) = (line, rest)"
    by (cases "extractLine d (buffer iss)")
  show ?thesis
  proof (cases rest)
    case None
    with ex have "line = buffer iss" by (simp add: extractLine_end)
    with good ex None assms show ?thesis by (auto simp: getline_def)
  next
    case (Some r)
    with ex have "length r < length (buffer iss)" by (simp add: extractLine_rest_shorter)
    with good ex Some assms show ?thesis by (auto simp: getline_def)
  qed
qed

text \<open>\<^verbatim>\<open>while (std::getline(iss, substring, ' ')) substrings.push_back(substring);\<close>\<close>

function splitLoop :: "istringstream \<Rightarrow> string list \<Rightarrow> string list" where
  "splitLoop iss substrings =
     (case getline iss (CHR '' '') of
        (substring, iss') \<Rightarrow>
          if failbit iss' then substrings
          else splitLoop iss' (substrings @ [substring]))"
  by pat_completeness auto
termination
proof (relation "measure (\<lambda>(iss, _). length (buffer iss) + (if eofbit iss then 0 else 1))",
    goal_cases)
  case 1
  show ?case by simp
next
  case (2 iss substrings substring iss')
  then have g: "getline iss (CHR '' '') = (substring, iss')" and "\<not> failbit iss'"
    by simp_all
  with getline_decreases [OF g] show ?case
    by simp
qed

definition splitStringBySpace :: "string \<Rightarrow> string list" where
  "splitStringBySpace inputString =
     splitLoop \<lparr>buffer = inputString, eofbit = False, failbit = False\<rparr> []"

section \<open>Integers from text\<close>

text \<open>
  \<^verbatim>\<open>std::stoi(str)\<close> is \<^verbatim>\<open>strtol(str, &end, 10)\<close> with two checks: white space is
  skipped, one sign is read, then the longest run of decimal digits; what follows is
  ignored. No digit: \<^verbatim>\<open>std::invalid_argument\<close>. A value that does not fit a 32-bit
  \<^verbatim>\<open>int\<close>: \<^verbatim>\<open>std::out_of_range\<close>.
\<close>

definition isspace :: "char \<Rightarrow> bool" where
  "isspace c = ((of_char c :: nat) \<in> {9, 10, 11, 12, 13, 32})"

definition isdigit :: "char \<Rightarrow> bool" where
  "isdigit c = (48 \<le> (of_char c :: nat) \<and> (of_char c :: nat) \<le> 57)"

fun digits_value :: "int \<Rightarrow> string \<Rightarrow> int" where
  "digits_value acc [] = acc"
| "digits_value acc (c # cs) = digits_value (10 * acc + (int (of_char c) - 48)) cs"

definition stoi :: "string \<Rightarrow> exception + int" where
  "stoi str =
     (let s1 = dropWhile isspace str;
          negative = (case s1 of [] \<Rightarrow> False | c # _ \<Rightarrow> c = CHR ''-'');
          s2 = (case s1 of [] \<Rightarrow> []
                | c # cs \<Rightarrow> if c = CHR ''-'' \<or> c = CHR ''+'' then cs else s1);
          digits = takeWhile isdigit s2;
          v = (if negative then - digits_value 0 digits else digits_value 0 digits)
      in if digits = [] then Inl invalid_argument
         else if v < - (2 ^ 31) \<or> 2 ^ 31 - 1 < v then Inl out_of_range
         else Inr v)"

section \<open>The process launcher\<close>

text \<open>
  \<^verbatim>\<open>tokensToArgv\<close> fills \<^verbatim>\<open>argv[i]\<close> with the i-th token and ends the vector with
  a null pointer.
\<close>

definition tokensToArgv :: "string list \<Rightarrow> string option list" where
  "tokensToArgv tokens = map Some tokens @ [None]"

text \<open>
  \<^verbatim>\<open>execvp(argv[0], argv)\<close> in the child: it does not return when the program starts,
  and returns when it cannot be started. A null \<^verbatim>\<open>argv[0]\<close> is outside its contract.
\<close>

definition execvp :: "os \<Rightarrow> string option list \<Rightarrow> 'a \<Rightarrow> shell \<Rightarrow> 'a flow \<times> shell" where
  "execvp env argv failed s =
     (let s' = log (Exec argv) s
      in case argv of
           Some file # _ \<Rightarrow>
             if exec_succeeds env file then (ImageReplaced, s') else (Return failed, s')
         | _ \<Rightarrow> (Undefined NullProgramName, s'))"

definition createProcess :: "os \<Rightarrow> string list \<Rightarrow> int \<Rightarrow> shell \<Rightarrow> CommandError flow \<times> shell" where
  "createProcess env tokens priority s =
     (let s0 = log (CreateProcess tokens priority) s;
          argv = tokensToArgv tokens;
          pid = fork_returns env (trace s0);
          s1 = log (Fork pid) s0
      in if pid < 0 then (Return FORK_ERROR, s1)
         else if pid = 0 then execvp env argv INVALID_PROCESS_INPUT s1
         else (Return OK, log (SetPriority pid priority) (s1\<lparr>pids := insert pid (pids s1)\<rparr>)))"

text \<open>
  The loop of \<^verbatim>\<open>createProcesses\<close> over the tokens still to read, with its two
  variables \<^verbatim>\<open>currentTokens\<close> and \<^verbatim>\<open>e\<close>; after the last token the tokens collected
  are launched.
\<close>

fun createProcessesLoop ::
  "os \<Rightarrow> string list \<Rightarrow> string list \<Rightarrow> CommandError \<Rightarrow> shell \<Rightarrow> CommandError flow \<times> shell"
where
  "createProcessesLoop env [] currentTokens e s = createProcess env currentTokens 0 s"
| "createProcessesLoop env (arg # rest) currentTokens e s =
     (if arg = ''&&'' then
        (case createProcess env currentTokens 0 s of
           (Return e', s') \<Rightarrow>
             if e' \<noteq> OK then (Return e', s') else createProcessesLoop env rest [] e' s'
         | (Throw x, s') \<Rightarrow> (Throw x, s')
         | (ImageReplaced, s') \<Rightarrow> (ImageReplaced, s')
         | (Undefined u, s') \<Rightarrow> (Undefined u, s'))
      else if e \<noteq> OK then (Return e, s)
      else createProcessesLoop env rest (currentTokens @ [arg]) e s)"

definition createProcesses :: "os \<Rightarrow> string list \<Rightarrow> shell \<Rightarrow> CommandError flow \<times> shell" where
  "createProcesses env tokens s = createProcessesLoop env tokens [] OK s"

section \<open>The built-in commands\<close>

definition killCommand :: TerminalCommand where
  "killCommand env arguments s =
     (if length arguments \<noteq> 1 then (Return INVALID_ARGUMENT_NUMBER, s)
      else case stoi (arguments ! 0) of
             Inl x \<Rightarrow> (Throw x, s)
           | Inr pid \<Rightarrow>
               if pid \<notin> pids s then (Return INVALID_PID, s)
               else (Return OK, (log (Kill pid) s)\<lparr>pids := pids s - {pid}\<rparr>))"

text \<open>
  \<^verbatim>\<open>for (auto pid : pids) kill(pid, SIGKILL);\<close> visits the set in an order the
  container does not specify; the model sends the signals in ascending order.
\<close>

definition killAllCommand :: TerminalCommand where
  "killAllCommand env arguments s =
     (if length arguments \<noteq> 0 then (Return INVALID_ARGUMENT_NUMBER, s)
      else (Return OK,
            s\<lparr>pids := {}, trace := trace s @ map Kill (sorted_list_of_set (pids s))\<rparr>))"

text \<open>The value \<^verbatim>\<open>createProcess\<close> returns is dropped: \<^verbatim>\<open>niceCommand\<close> returns OK after it.\<close>

definition niceCommand :: TerminalCommand where
  "niceCommand env arguments s =
     (if length arguments \<noteq> 2 then (Return INVALID_ARGUMENT_NUMBER, s)
      else case stoi (arguments ! 0) of
             Inl x \<Rightarrow> (Throw x, s)
           | Inr prio \<Rightarrow>
               (let command = arguments ! 1
                in case createProcess env [command] prio s of
                     (Return _, s') \<Rightarrow> (Return OK, s')
                   | (Throw x, s') \<Rightarrow> (Throw x, s')
                   | (ImageReplaced, s') \<Rightarrow> (ImageReplaced, s')
                   | (Undefined u, s') \<Rightarrow> (Undefined u, s')))"

definition showPids :: TerminalCommand where
  "showPids env arguments s =
     (if length arguments \<noteq> 0 then (Return INVALID_ARGUMENT_NUMBER, s)
      else (Return OK, s))"

definition listDirContent :: TerminalCommand where
  "listDirContent env arguments s =
     (if length arguments \<noteq> 0 then (Return INVALID_ARGUMENT_NUMBER, s)
      else (Return OK, s))"

definition printFileContents :: TerminalCommand where
  "printFileContents env arguments s =
     (if length arguments \<noteq> 1 then (Return INVALID_ARGUMENT_NUMBER, s)
      else if \<not> is_regular_file env (arguments ! 0) then (Return INVALID_FILE_PATH, s)
      else if \<not> can_open env (arguments ! 0) then (Return INVALID_FILE_PATH, s)
      else (Return OK, s))"

text \<open>\<^verbatim>\<open>openNotepad\<close> never looks at its arguments.\<close>

definition openNotepad :: TerminalCommand where
  "openNotepad env arguments s =
     (let pid = fork_returns env (trace s);
          s1 = log (Fork pid) s
      in if pid = - 1 then (Return UNABLE_TO_OPEN_NOTEPAD, s1)
         else if pid = 0
           then execvp env [Some ''notepad.exe'', None] UNABLE_TO_OPEN_NOTEPAD s1
         else (Return OK, s1\<lparr>pids := insert pid (pids s1)\<rparr>))"

section \<open>The dispatcher and the loop\<close>

definition terminalCommands :: "string \<Rightarrow> TerminalCommand option" where
  "terminalCommands =
     map_of
       [(''ls'', listDirContent),
        (''cat'', printFileContents),
        (''notepad'', openNotepad),
        (''kill'', killCommand),
        (''killall'', killAllCommand),
        (''pids'', showPids),
        (''nice'', niceCommand)]"

text \<open>
  \<^verbatim>\<open>terminalCommands.at(command)(arguments)\<close> runs inside a \<^verbatim>\<open>try\<close> whose handler
  catches \<^verbatim>\<open>std::out_of_range\<close>: the one \<^verbatim>\<open>at\<close> throws for an unknown name, and
  also the one \<^verbatim>\<open>std::stoi\<close> throws inside a handler. Any other exception passes.
\<close>

definition executeCommand :: "os \<Rightarrow> string list \<Rightarrow> shell \<Rightarrow> CommandError flow \<times> shell" where
  "executeCommand env tokens s =
     (case tokens of
        [] \<Rightarrow> (Undefined IndexOutOfRange, s)
      | command # arguments \<Rightarrow>
          (case terminalCommands command of
             None \<Rightarrow> (Return UNKNOWN_COMMAND, s)
           | Some handler \<Rightarrow>
               (case handler env arguments s of
                  (Throw out_of_range, s') \<Rightarrow> (Return UNKNOWN_COMMAND, s')
                | (Throw invalid_argument, s') \<Rightarrow> (Throw invalid_argument, s')
                | (Return e, s') \<Rightarrow> (Return e, s')
                | (ImageReplaced, s') \<Rightarrow> (ImageReplaced, s')
                | (Undefined u, s') \<Rightarrow> (Undefined u, s'))))"

text \<open>
  One turn of \<^verbatim>\<open>while (true)\<close> in \<^verbatim>\<open>main\<close> on the line read. It returns \<open>None\<close> when
  the line is empty (\<^verbatim>\<open>continue\<close>) and otherwise the outcome \<open>e\<close> whose message is
  printed unless it is OK. An exception that reaches \<^verbatim>\<open>main\<close> is not caught there:
  the program ends.
\<close>

definition mainIteration :: "os \<Rightarrow> string \<Rightarrow> shell \<Rightarrow> CommandError option flow \<times> shell" where
  "mainIteration env inputBuffer s =
     (if inputBuffer = [] then (Return None, s)
      else let tokens = splitStringBySpace inputBuffer
           in case executeCommand env tokens s of
                (Return e, s') \<Rightarrow>
                  if e = UNKNOWN_COMMAND
                  then (case createProcesses env tokens s' of
                          (f, s'') \<Rightarrow> (map_flow Some f, s''))
                  else (Return (Some e), s')
              | (f, s') \<Rightarrow> (map_flow Some f, s'))"

section \<open>Reading the code's effects\<close>

text \<open>
  The calls of the launcher between two states of the shell: the token sequences
  \<^verbatim>\<open>createProcess\<close> was entered with, in order, read from the events added to the
  trace.
\<close>

fun launcher_call :: "event \<Rightarrow> string list option" where
  "launcher_call (CreateProcess tokens priority) = Some tokens"
| "launcher_call _ = None"

definition launcher_calls :: "shell \<Rightarrow> shell \<Rightarrow> string list list" where
  "launcher_calls s s' = List.map_filter launcher_call (drop (length (trace s)) (trace s'))"

section \<open>Multi-launch orchestration as the specification words it\<close>

text \<open>
  The specification describes \<^verbatim>\<open>createProcesses\<close> in two steps: partition the token
  stream into the groups that the literal token \<^verbatim>\<open>&&\<close> separates, then launch each
  group in turn and stop at the first launch that does not succeed. \<open>groups\<close> and
  \<open>launch_groups\<close> follow these words, not the code; \<open>join_groups\<close> puts the separators
  back.
\<close>

fun groups :: "string list \<Rightarrow> string list list" where
  "groups [] = [[]]"
| "groups (t # ts) =
     (if t = ''&&'' then [] # groups ts
      else case groups ts of
             [] \<Rightarrow> [[t]]
           | g # gs \<Rightarrow> (t # g) # gs)"

fun join_groups :: "string list list \<Rightarrow> string list" where
  "join_groups [] = []"
| "join_groups [g] = g"
| "join_groups (g # gs) = g @ ''&&'' # join_groups gs"

fun launch_groups :: "os \<Rightarrow> string list list \<Rightarrow> shell \<Rightarrow> CommandError flow \<times> shell" where
  "launch_groups env [] s = (Return OK, s)"
| "launch_groups env (g # gs) s =
     (case createProcess env g 0 s of
        (Return e, s') \<Rightarrow> if e = OK then launch_groups env gs s' else (Return e, s')
      | (Throw x, s') \<Rightarrow> (Throw x, s')
      | (ImageReplaced, s') \<Rightarrow> (ImageReplaced, s')
      | (Undefined u, s') \<Rightarrow> (Undefined u, s'))"

section \<open>Concrete environments and states\<close>

text \<open>The shell at startup: no job, nothing done.\<close>

definition startup :: shell where
  "startup = \<lparr>pids = {}, trace = []\<rparr>"

text \<open>An environment in which every \<^verbatim>\<open>fork\<close> fails, and no file exists.\<close>

definition fork_fails :: os where
  "fork_fails =
     \<lparr>fork_returns = (\<lambda>_. - 1), exec_succeeds = (\<lambda>_. True),
      is_regular_file = (\<lambda>_. False), can_open = (\<lambda>_. False)\<rparr>"

text \<open>
  An environment seen from the parent: every \<^verbatim>\<open>fork\<close> succeeds and returns the pid
  given.
\<close>

definition fork_gives :: "int \<Rightarrow> os" where
  "fork_gives pid =
     \<lparr>fork_returns = (\<lambda>_. pid), exec_succeeds = (\<lambda>_. True),
      is_regular_file = (\<lambda>_. False), can_open = (\<lambda>_. False)\<rparr>"

section \<open>The tokenizer: properties\<close>

lemma extractLine_delim:
  "d \<notin> set u \<Longrightarrow> extractLine d (u @ d # v) = (u, Some v)"
  by (induction u) auto

lemma extractLine_no_delim:
  "d \<notin> set u \<Longrightarrow> extractLine d u = (u, None)"
  by (induction u) auto

lemma splitLoop_append: "splitLoop iss (acc @ xs) = acc @ splitLoop iss xs"
proof (induction iss xs arbitrary: acc rule: splitLoop.induct)
  case (1 iss substrings)
  obtain l iss' where g: "getline iss (CHR '' '') = (l, iss')"
    by (cases "getline iss (CHR '' '')")
  show ?case
  proof (cases "failbit iss'")
    case True
    with g show ?thesis
      by (simp add: splitLoop.simps [of iss])
  next
    case False
    have "splitLoop iss' (acc @ substrings @ [l]) = acc @ splitLoop iss' (substrings @ [l])"
      using "1.IH" [OF g [symmetric] False] .
    with g False show ?thesis
      by (simp add: splitLoop.simps [of iss])
  qed
qed

lemma splitLoop_acc: "splitLoop iss acc = acc @ splitLoop iss []"
  using splitLoop_append [of iss acc "[]"] by simp

lemma splitStringBySpace_Nil: "splitStringBySpace [] = []"
  by (simp add: splitStringBySpace_def getline_def)

lemma splitStringBySpace_token:
  assumes "CHR '' '' \<notin> set u"
  shows "splitStringBySpace (u @ CHR '' '' # v) = u # splitStringBySpace v"
proof -
  let ?iss = "\<lparr>buffer = u @ CHR '' '' # v, eofbit = False, failbit = False\<rparr>"
  let ?iss' = "\<lparr>buffer = v, eofbit = False, failbit = False\<rparr>"
  have "getline ?iss (CHR '' '') = (u, ?iss')"
    using assms by (simp add: getline_def extractLine_delim)
  then have "splitLoop ?iss [] = splitLoop ?iss' [u]"
    by (simp add: splitLoop.simps [of ?iss])
  also have "\<dots> = u # splitLoop ?iss' []"
    using splitLoop_acc [of ?iss' "[u]"] by simp
  finally show ?thesis
    by (simp add: splitStringBySpace_def)
qed

lemma splitStringBySpace_last:
  assumes "CHR '' '' \<notin> set u" and "u \<noteq> []"
  shows "splitStringBySpace u = [u]"
proof -
  let ?iss = "\<lparr>buffer = u, eofbit = False, failbit = False\<rparr>"
  let ?iss' = "\<lparr>buffer = [], eofbit = True, failbit = False\<rparr>"
  have "getline ?iss (CHR '' '') = (u, ?iss')"
    using assms by (simp add: getline_def extractLine_no_delim)
  then have "splitLoop ?iss [] = splitLoop ?iss' [u]"
    by (simp add: splitLoop.simps [of ?iss])
  also have "\<dots> = [u]"
    by (simp add: splitLoop.simps [of ?iss'] getline_def)
  finally show ?thesis
    by (simp add: splitStringBySpace_def)
qed

lemma splitStringBySpace_nonempty:
  assumes "line \<noteq> []"
  shows "splitStringBySpace line \<noteq> []"
proof (cases "CHR '' '' \<in> set line")
  case True
  then obtain u v where "line = u @ CHR '' '' # v" and "CHR '' '' \<notin> set u"
    by (auto dest: split_list_first)
  then show ?thesis
    by (simp add: splitStringBySpace_token)
next
  case False
  with assms show ?thesis
    by (simp add: splitStringBySpace_last)
qed

text \<open>
  Claim C8. The tokenizer splits at every single space: a token ends at the first
  space after it, two spaces in a row give an empty token between them (nothing is
  filtered), and a last token without a space after it is returned whole. The empty
  line gives no token, and the loop runs no command on it: the shell is unchanged.
\<close>

theorem tokenizer_splits_at_each_space:
  assumes "CHR '' '' \<notin> set u"
  shows "splitStringBySpace (u @ '' '' @ v) = u # splitStringBySpace v
       \<and> splitStringBySpace (u @ ''  '' @ v) = u # [] # splitStringBySpace v
       \<and> (u \<noteq> [] \<longrightarrow> splitStringBySpace u = [u])
       \<and> splitStringBySpace [] = []
       \<and> mainIteration env [] s = (Return None, s)"
proof -
  have one: "splitStringBySpace (u @ CHR '' '' # w) = u # splitStringBySpace w" for w
    using assms by (rule splitStringBySpace_token)
  have "splitStringBySpace (CHR '' '' # v) = [] # splitStringBySpace v"
    using splitStringBySpace_token [of "[]" v] by simp
  then have two: "splitStringBySpace (u @ CHR '' '' # CHR '' '' # v) = u # [] # splitStringBySpace v"
    using one [of "CHR '' '' # v"] by simp
  have three: "u \<noteq> [] \<longrightarrow> splitStringBySpace u = [u]"
    using assms by (simp add: splitStringBySpace_last)
  have four: "mainIteration env [] s = (Return None, s)"
    by (simp add: mainIteration_def)
  from one [of v] two three four show ?thesis
    by (simp add: splitStringBySpace_Nil)
qed

theorem tokenizer_splits_at_each_space_witness:
  "CHR '' '' \<notin> set ''ls''
   \<and> splitStringBySpace ''ls -l'' = [''ls'', ''-l'']
   \<and> splitStringBySpace ''ls  -l'' = [''ls'', [], ''-l'']
   \<and> splitStringBySpace ''ls'' = [''ls'']
   \<and> mainIteration fork_fails [] startup = (Return None, startup)"
proof -
  have h: "CHR '' '' \<notin> set ''ls''"
    by simp
  have l: "splitStringBySpace ''-l'' = [''-l'']"
    by (simp add: splitStringBySpace_def getline_def)
  from tokenizer_splits_at_each_space [OF h, of "''-l''" fork_fails startup] h l
  show ?thesis
    by simp
qed

lemma createProcess_in_bounds:
  "fst (createProcess env tokens priority s) \<noteq> Undefined IndexOutOfRange"
  by (auto simp: createProcess_def execvp_def Let_def split: list.splits option.splits)

lemma handlers_in_bounds:
  assumes "terminalCommands command = Some handler"
  shows "fst (handler env arguments s) \<noteq> Undefined IndexOutOfRange"
proof -
  from assms have "handler \<in> {listDirContent, printFileContents, openNotepad, killCommand,
      killAllCommand, showPids, niceCommand}"
    by (auto simp: terminalCommands_def split: if_splits)
  moreover have "fst (listDirContent env arguments s) \<noteq> Undefined IndexOutOfRange"
    by (simp add: listDirContent_def)
  moreover have "fst (printFileContents env arguments s) \<noteq> Undefined IndexOutOfRange"
    by (simp add: printFileContents_def)
  moreover have "fst (openNotepad env arguments s) \<noteq> Undefined IndexOutOfRange"
    by (simp add: openNotepad_def execvp_def Let_def)
  moreover have "fst (killCommand env arguments s) \<noteq> Undefined IndexOutOfRange"
    by (simp add: killCommand_def split: sum.splits)
  moreover have "fst (killAllCommand env arguments s) \<noteq> Undefined IndexOutOfRange"
    by (simp add: killAllCommand_def)
  moreover have "fst (showPids env arguments s) \<noteq> Undefined IndexOutOfRange"
    by (simp add: showPids_def)
  moreover have "fst (niceCommand env arguments s) \<noteq> Undefined IndexOutOfRange"
  proof (cases "length arguments \<noteq> 2")
    case True
    then show ?thesis by (simp add: niceCommand_def)
  next
    case False
    show ?thesis
    proof (cases "stoi (arguments ! 0)")
      case (Inl x)
      with False show ?thesis by (simp add: niceCommand_def)
    next
      case (Inr prio)
      obtain f s' where r: "createProcess env [arguments ! 1] prio s = (f, s')"
        by (cases "createProcess env [arguments ! 1] prio s")
      with createProcess_in_bounds [of env "[arguments ! 1]" prio s]
      have "f \<noteq> Undefined IndexOutOfRange" by simp
      with False Inr r show ?thesis
        by (cases f) (simp_all add: niceCommand_def)
    qed
  qed
  ultimately show ?thesis by auto
qed

lemma executeCommand_in_bounds:
  "fst (executeCommand env (command # arguments) s) \<noteq> Undefined IndexOutOfRange"
proof (cases "terminalCommands command")
  case None
  then show ?thesis by (simp add: executeCommand_def)
next
  case (Some handler)
  obtain f s' where r: "handler env arguments s = (f, s')"
    by (cases "handler env arguments s")
  with handlers_in_bounds [OF Some, of env arguments s]
  have "f \<noteq> Undefined IndexOutOfRange" by simp
  with Some r show ?thesis
    by (cases f) (auto simp: executeCommand_def split: exception.splits)
qed

text \<open>
  Claim C10. A line that is not empty always gives at least one token (a line of one
  space gives the single empty token), so \<^verbatim>\<open>tokens[0]\<close> in \<^verbatim>\<open>executeCommand\<close> is
  never read out of range on the tokens of such a line.
\<close>

theorem nonempty_line_has_first_token:
  assumes "inputBuffer \<noteq> []"
  shows "0 < length (splitStringBySpace inputBuffer)
       \<and> fst (executeCommand env (splitStringBySpace inputBuffer) s) \<noteq> Undefined IndexOutOfRange
       \<and> splitStringBySpace '' '' = [[]]"
proof -
  from assms have ne: "splitStringBySpace inputBuffer \<noteq> []"
    by (rule splitStringBySpace_nonempty)
  then obtain command arguments where "splitStringBySpace inputBuffer = command # arguments"
    by (cases "splitStringBySpace inputBuffer") auto
  then have "fst (executeCommand env (splitStringBySpace inputBuffer) s) \<noteq> Undefined IndexOutOfRange"
    by (simp add: executeCommand_in_bounds)
  moreover have "splitStringBySpace '' '' = [[]]"
    by (simp add: splitStringBySpace_def getline_def)
  ultimately show ?thesis
    using ne by simp
qed

theorem nonempty_line_has_first_token_witness:
  "''  '' \<noteq> []
   \<and> splitStringBySpace ''  '' = [[], []]
   \<and> executeCommand fork_fails (splitStringBySpace ''  '') startup = (Return UNKNOWN_COMMAND, startup)
   \<and> executeCommand fork_fails [] startup = (Undefined IndexOutOfRange, startup)"
proof -
  have h: "''  '' \<noteq> []"
    by simp
  have t: "splitStringBySpace ''  '' = [[], []]"
    by (simp add: splitStringBySpace_def getline_def)
  have e: "executeCommand fork_fails [[], []] startup = (Return UNKNOWN_COMMAND, startup)"
    by (simp add: executeCommand_def terminalCommands_def)
  have u: "executeCommand fork_fails [] startup = (Undefined IndexOutOfRange, startup)"
    by (simp add: executeCommand_def)
  from nonempty_line_has_first_token [OF h, of fork_fails startup] h t e u
  show ?thesis
    by simp
qed

section \<open>The built-in commands: properties\<close>

lemma stoi_999999: "stoi ''999999'' = Inr 999999"
  by (simp add: stoi_def isspace_def isdigit_def)

lemma stoi_5: "stoi ''5'' = Inr 5"
  by (simp add: stoi_def isspace_def isdigit_def)

lemma stoi_abc: "stoi ''abc'' = Inl invalid_argument"
  by (simp add: stoi_def isspace_def isdigit_def)

text \<open>
  Six of the seven handlers start with a check of the number of arguments and return
  before doing anything else when it fails.
\<close>

lemma arity_checked_handlers:
  "length arguments \<noteq> 0 \<Longrightarrow> listDirContent env arguments s = (Return INVALID_ARGUMENT_NUMBER, s)"
  "length arguments \<noteq> 1 \<Longrightarrow> printFileContents env arguments s = (Return INVALID_ARGUMENT_NUMBER, s)"
  "length arguments \<noteq> 1 \<Longrightarrow> killCommand env arguments s = (Return INVALID_ARGUMENT_NUMBER, s)"
  "length arguments \<noteq> 0 \<Longrightarrow> killAllCommand env arguments s = (Return INVALID_ARGUMENT_NUMBER, s)"
  "length arguments \<noteq> 0 \<Longrightarrow> showPids env arguments s = (Return INVALID_ARGUMENT_NUMBER, s)"
  "length arguments \<noteq> 2 \<Longrightarrow> niceCommand env arguments s = (Return INVALID_ARGUMENT_NUMBER, s)"
  by (simp_all add: listDirContent_def printFileContents_def killCommand_def killAllCommand_def
      showPids_def niceCommand_def)

text \<open>
  Claim C1, at the input \<^verbatim>\<open>notepad foo\<close>. \<^verbatim>\<open>openNotepad\<close> has no such check: with
  one argument too many it forks all the same, returns OK and records the new pid in
  the job table.
\<close>

theorem notepad_with_argument_launches:
  "executeCommand (fork_gives 4242) [''notepad'', ''foo''] startup
     = (Return OK, \<lparr>pids = {4242}, trace = [Fork 4242]\<rparr>)"
  by (simp add: executeCommand_def terminalCommands_def openNotepad_def fork_gives_def
      startup_def log_def)

text \<open>
  Claim C2, at the input \<^verbatim>\<open>nice 5 foo\<close> when \<^verbatim>\<open>fork\<close> fails. The launcher returns
  FORK_ERROR for this very call; \<^verbatim>\<open>niceCommand\<close> returns OK.
\<close>

theorem nice_drops_launcher_error:
  "createProcess fork_fails [''foo''] 5 startup
     = (Return FORK_ERROR, \<lparr>pids = {}, trace = [CreateProcess [''foo''] 5, Fork (- 1)]\<rparr>)
   \<and> niceCommand fork_fails [''5'', ''foo''] startup
     = (Return OK, \<lparr>pids = {}, trace = [CreateProcess [''foo''] 5, Fork (- 1)]\<rparr>)"
  by (simp add: niceCommand_def createProcess_def fork_fails_def startup_def log_def stoi_5)

text \<open>
  Claim C3 as stated fails: with three arguments, the first an integer, \<^verbatim>\<open>nice\<close>
  returns INVALID_ARGUMENT_NUMBER and launches nothing.
\<close>

theorem nice_three_arguments_rejected:
  "\<not> length [''5'', ''sleep'', ''100''] < 2
   \<and> stoi ''5'' = Inr 5
   \<and> niceCommand fork_fails [''5'', ''sleep'', ''100''] startup
       = (Return INVALID_ARGUMENT_NUMBER, startup)"
  by (simp add: niceCommand_def stoi_5)

lemma niceCommand_two:
  assumes "stoi a = Inr prio"
  shows "snd (niceCommand env [a, c] s) = snd (createProcess env [c] prio s)"
    and "fst (niceCommand env [a, c] s) \<noteq> Return INVALID_ARGUMENT_NUMBER"
proof -
  obtain f s' where r: "createProcess env [c] prio s = (f, s')"
    by (cases "createProcess env [c] prio s")
  with assms show "snd (niceCommand env [a, c] s) = snd (createProcess env [c] prio s)"
    by (cases f) (simp_all add: niceCommand_def)
  from assms r show "fst (niceCommand env [a, c] s) \<noteq> Return INVALID_ARGUMENT_NUMBER"
    by (cases f) (simp_all add: niceCommand_def)
qed

lemma niceCommand_arity:
  "(fst (niceCommand env arguments s) = Return INVALID_ARGUMENT_NUMBER) = (length arguments \<noteq> 2)"
proof (cases "length arguments = 2")
  case False
  then show ?thesis by (simp add: niceCommand_def)
next
  case True
  then obtain a c where args: "arguments = [a, c]"
    by (cases arguments; cases "tl arguments") auto
  show ?thesis
  proof (cases "stoi a")
    case (Inl x)
    with args show ?thesis by (simp add: niceCommand_def)
  next
    case (Inr prio)
    with args niceCommand_two(2) [of a prio env c s] show ?thesis by simp
  qed
qed

text \<open>
  Claim C3, amended. \<^verbatim>\<open>nice\<close> returns INVALID_ARGUMENT_NUMBER exactly when the
  number of its arguments is not 2. With two arguments, the first an integer, it
  passes the check and goes on to the launch: the shell is left as the launcher
  leaves it when called with the second argument alone and the priority read.
\<close>

theorem nice_arity_is_exactly_two:
  assumes "stoi a = Inr prio"
  shows "((fst (niceCommand env arguments s) = Return INVALID_ARGUMENT_NUMBER)
            = (length arguments \<noteq> 2))
       \<and> fst (niceCommand env [a, c] s) \<noteq> Return INVALID_ARGUMENT_NUMBER
       \<and> snd (niceCommand env [a, c] s) = snd (createProcess env [c] prio s)"
  using niceCommand_arity [of env arguments s] niceCommand_two [OF assms, of env c s]
  by simp

theorem nice_arity_is_exactly_two_witness:
  "stoi ''5'' = Inr 5
   \<and> fst (niceCommand (fork_gives 4242) [''5'', ''sleep'', ''100''] startup)
       = Return INVALID_ARGUMENT_NUMBER
   \<and> fst (niceCommand (fork_gives 4242) [''5'', ''sleep''] startup) = Return OK
   \<and> snd (niceCommand (fork_gives 4242) [''5'', ''sleep''] startup)
       = \<lparr>pids = {4242},
          trace = [CreateProcess [''sleep''] 5, Fork 4242, SetPriority 4242 5]\<rparr>"
proof -
  have h: "stoi ''5'' = Inr 5"
    by (rule stoi_5)
  have c: "createProcess (fork_gives 4242) [''sleep''] 5 startup
      = (Return OK, \<lparr>pids = {4242},
          trace = [CreateProcess [''sleep''] 5, Fork 4242, SetPriority 4242 5]\<rparr>)"
    by (simp add: createProcess_def fork_gives_def startup_def log_def)
  have n: "fst (niceCommand (fork_gives 4242) [''5'', ''sleep''] startup) = Return OK"
    by (simp add: niceCommand_def h c)
  from nice_arity_is_exactly_two
    [OF h, of "fork_gives 4242" "[''5'', ''sleep'', ''100'']" startup "''sleep''"] h c n
  show ?thesis
    by simp
qed

text \<open>
  Claim C5. When the argument of \<^verbatim>\<open>kill\<close> is read as an integer by \<^verbatim>\<open>std::stoi\<close>
  and that integer is not in the job table, the handler returns INVALID_PID and
  the shell is as before: the table is the same and no signal was sent. The same
  holds through the dispatcher.
\<close>

theorem kill_of_untracked_pid:
  assumes "stoi a = Inr pid" and "pid \<notin> pids s"
  shows "killCommand env [a] s = (Return INVALID_PID, s)
       \<and> executeCommand env [''kill'', a] s = (Return INVALID_PID, s)"
proof -
  from assms have "killCommand env [a] s = (Return INVALID_PID, s)"
    by (simp add: killCommand_def)
  then show ?thesis
    by (simp add: executeCommand_def terminalCommands_def)
qed

theorem kill_of_untracked_pid_witness:
  "stoi ''999999'' = Inr 999999
   \<and> 999999 \<notin> pids \<lparr>pids = {4242}, trace = [Fork 4242]\<rparr>
   \<and> killCommand fork_fails [''999999''] \<lparr>pids = {4242}, trace = [Fork 4242]\<rparr>
       = (Return INVALID_PID, \<lparr>pids = {4242}, trace = [Fork 4242]\<rparr>)
   \<and> executeCommand fork_fails [''kill'', ''999999''] \<lparr>pids = {4242}, trace = [Fork 4242]\<rparr>
       = (Return INVALID_PID, \<lparr>pids = {4242}, trace = [Fork 4242]\<rparr>)"
proof -
  have h1: "stoi ''999999'' = Inr 999999"
    by (rule stoi_999999)
  have h2: "999999 \<notin> pids \<lparr>pids = {4242}, trace = [Fork 4242]\<rparr>"
    by simp
  from kill_of_untracked_pid [OF h1 h2, of fork_fails] h1 h2 show ?thesis
    by simp
qed

text \<open>
  Claim C6, at the input \<^verbatim>\<open>kill abc\<close> (and \<^verbatim>\<open>nice abc foo\<close>). \<^verbatim>\<open>std::stoi\<close> throws
  \<^verbatim>\<open>std::invalid_argument\<close>, which no handler, \<^verbatim>\<open>executeCommand\<close> or \<^verbatim>\<open>main\<close>
  catches: no CommandError is returned and the loop ends with the exception.
\<close>

theorem malformed_integer_ends_the_loop:
  "killCommand env [''abc''] s = (Throw invalid_argument, s)
   \<and> niceCommand env [''abc'', ''foo''] s = (Throw invalid_argument, s)
   \<and> mainIteration env ''kill abc'' s = (Throw invalid_argument, s)
   \<and> mainIteration env ''nice abc foo'' s = (Throw invalid_argument, s)"
proof -
  have k: "killCommand env [''abc''] s = (Throw invalid_argument, s)"
    by (simp add: killCommand_def stoi_abc)
  have n: "niceCommand env [''abc'', ''foo''] s = (Throw invalid_argument, s)"
    by (simp add: niceCommand_def stoi_abc)
  have "splitStringBySpace ''kill abc'' = [''kill'', ''abc'']"
    by (simp add: splitStringBySpace_def getline_def)
  then have mk: "mainIteration env ''kill abc'' s = (Throw invalid_argument, s)"
    by (simp add: mainIteration_def executeCommand_def terminalCommands_def k)
  have "splitStringBySpace ''nice abc foo'' = [''nice'', ''abc'', ''foo'']"
    by (simp add: splitStringBySpace_def getline_def)
  then have mn: "mainIteration env ''nice abc foo'' s = (Throw invalid_argument, s)"
    by (simp add: mainIteration_def executeCommand_def terminalCommands_def n)
  from k n mk mn show ?thesis
    by simp
qed

text \<open>
  Claim C7. Whatever the job table holds, \<^verbatim>\<open>killall\<close> without arguments returns OK
  and leaves the table empty, called directly or through the dispatcher.
\<close>

theorem killall_empties_the_table:
  "fst (killAllCommand env [] s) = Return OK
   \<and> pids (snd (killAllCommand env [] s)) = {}
   \<and> fst (executeCommand env [''killall''] s) = Return OK
   \<and> pids (snd (executeCommand env [''killall''] s)) = {}"
  by (simp add: killAllCommand_def executeCommand_def terminalCommands_def)

section \<open>Multi-launch orchestration: properties\<close>

lemma groups_not_Nil: "groups ts \<noteq> []"
  by (induction ts) (auto split: list.splits)

lemma join_groups_Cons: "gs \<noteq> [] \<Longrightarrow> join_groups (g # gs) = g @ ''&&'' # join_groups gs"
  by (cases gs) simp_all

lemma join_groups_groups: "join_groups (groups ts) = ts"
proof (induction ts)
  case Nil
  show ?case by simp
next
  case (Cons t ts)
  obtain g gs where g: "groups ts = g # gs"
    using groups_not_Nil [of ts] by (cases "groups ts") auto
  show ?case
  proof (cases "t = ''&&''")
    case True
    with Cons show ?thesis by (simp add: join_groups_Cons groups_not_Nil)
  next
    case False
    with Cons g show ?thesis by (cases gs) simp_all
  qed
qed

lemma groups_no_conj: "g \<in> set (groups ts) \<Longrightarrow> ''&&'' \<notin> set g"
proof (induction ts arbitrary: g)
  case Nil
  then show ?case by simp
next
  case (Cons t ts)
  then show ?case
    by (cases "groups ts") (auto split: if_splits)
qed

lemma groups_conj: "groups (a @ ''&&'' # b) = groups a @ groups b"
proof (induction a)
  case Nil
  show ?case by simp
next
  case (Cons t a)
  obtain g gs where g: "groups a = g # gs"
    using groups_not_Nil [of a] by (cases "groups a") auto
  with Cons show ?case by simp
qed

lemma launch_last: "launch_groups env [g] s = createProcess env g 0 s"
proof -
  obtain f s' where r: "createProcess env g 0 s = (f, s')"
    by (cases "createProcess env g 0 s")
  then show ?thesis
    by (cases f) simp_all
qed

lemma loop_refines:
  "createProcessesLoop env ts cur OK s =
     (case groups ts of g # gs \<Rightarrow> launch_groups env ((cur @ g) # gs) s
      | [] \<Rightarrow> (Return OK, s))"
proof (induction ts arbitrary: cur s)
  case Nil
  show ?case using launch_last [of env cur s] by simp
next
  case (Cons t ts)
  obtain g gs where g: "groups ts = g # gs"
    using groups_not_Nil [of ts] by (cases "groups ts") auto
  show ?case
  proof (cases "t = ''&&''")
    case True
    obtain f s' where r: "createProcess env cur 0 s = (f, s')"
      by (cases "createProcess env cur 0 s")
    show ?thesis
    proof (cases f)
      case (Return e)
      show ?thesis
      proof (cases "e = OK")
        case ok: True
        have "createProcessesLoop env ts [] OK s' = launch_groups env (g # gs) s'"
          using Cons.IH [of "[]" s'] g by simp
        with True r Return ok g show ?thesis by simp
      next
        case False
        with True r Return show ?thesis by simp
      qed
    qed (use True r in simp_all)
  next
    case False
    have "createProcessesLoop env ts (cur @ [t]) OK s = launch_groups env (((cur @ [t]) @ g) # gs) s"
      using Cons.IH [of "cur @ [t]" s] g by simp
    with False g show ?thesis by simp
  qed
qed

lemma createProcesses_refines: "createProcesses env tokens s = launch_groups env (groups tokens) s"
proof -
  obtain g gs where g: "groups tokens = g # gs"
    using groups_not_Nil [of tokens] by (cases "groups tokens") auto
  then show ?thesis
    using loop_refines [of env tokens "[]" s] by (simp add: createProcesses_def)
qed

lemma createProcess_trace:
  "\<exists>rest. trace (snd (createProcess env g p s)) = trace s @ CreateProcess g p # rest
          \<and> List.map_filter launcher_call rest = []"
  by (auto simp: createProcess_def execvp_def log_def Let_def tokensToArgv_def map_filter_simps
      split: list.splits option.splits)

lemma map_filter_launcher_append: "List.map_filter f (xs @ ys) = List.map_filter f xs @ List.map_filter f ys"
  by (simp add: List.map_filter_def)

lemma launch_groups_trace:
  "\<exists>evs. trace (snd (launch_groups env gs s)) = trace s @ evs
         \<and> prefix (List.map_filter launcher_call evs) gs
         \<and> (fst (launch_groups env gs s) = Return OK \<longrightarrow> List.map_filter launcher_call evs = gs)"
proof (induction gs arbitrary: s)
  case Nil
  show ?case by (simp add: map_filter_simps)
next
  case (Cons g gs)
  obtain f s' where r: "createProcess env g 0 s = (f, s')"
    by (cases "createProcess env g 0 s")
  obtain rest where t: "trace s' = trace s @ CreateProcess g 0 # rest"
      and c: "List.map_filter launcher_call rest = []"
    using createProcess_trace [of env g 0 s] r by auto
  have one: "List.map_filter launcher_call (CreateProcess g 0 # rest) = [g]"
    using c by (simp add: map_filter_simps)
  show ?case
  proof (cases "f = Return OK")
    case True
    obtain evs where e: "trace (snd (launch_groups env gs s')) = trace s' @ evs"
        and p: "prefix (List.map_filter launcher_call evs) gs"
        and a: "fst (launch_groups env gs s') = Return OK \<longrightarrow> List.map_filter launcher_call evs = gs"
      using Cons.IH [of s'] by blast
    have l: "launch_groups env (g # gs) s = launch_groups env gs s'"
      using r True by simp
    have "trace (snd (launch_groups env (g # gs) s)) = trace s @ (CreateProcess g 0 # rest) @ evs"
      using l e t by simp
    moreover have "List.map_filter launcher_call ((CreateProcess g 0 # rest) @ evs)
        = g # List.map_filter launcher_call evs"
      using one by (simp only: map_filter_launcher_append) simp
    ultimately show ?thesis
      using p a l by (intro exI [of _ "(CreateProcess g 0 # rest) @ evs"]) simp
  next
    case False
    have l: "launch_groups env (g # gs) s = (f, s')"
      using r False by (cases f) auto
    show ?thesis
      using l t one False by (intro exI [of _ "CreateProcess g 0 # rest"]) simp
  qed
qed

lemma launch_groups_append:
  "launch_groups env pre s = (Return OK, s1) \<Longrightarrow>
   launch_groups env (pre @ post) s = launch_groups env post s1"
proof (induction pre arbitrary: s)
  case Nil
  then show ?case by simp
next
  case (Cons g pre)
  obtain f s' where r: "createProcess env g 0 s = (f, s')"
    by (cases "createProcess env g 0 s")
  show ?case
  proof (cases "f = Return OK")
    case True
    with r Cons.prems have "launch_groups env pre s' = (Return OK, s1)" by simp
    from Cons.IH [OF this] r True show ?thesis by simp
  next
    case False
    with r Cons.prems show ?thesis by (cases f) (auto split: if_splits)
  qed
qed

lemma launcher_calls_launch_groups:
  "prefix (launcher_calls s (snd (launch_groups env gs s))) gs"
  using launch_groups_trace [of env gs s] by (auto simp: launcher_calls_def)

lemma launcher_calls_all:
  "fst (launch_groups env gs s) = Return OK \<Longrightarrow> launcher_calls s (snd (launch_groups env gs s)) = gs"
  using launch_groups_trace [of env gs s] by (auto simp: launcher_calls_def)

lemma empty_group_reached:
  assumes "launch_groups env pre s = (Return OK, s1)"
  shows "[] \<in> set (launcher_calls s (snd (launch_groups env (pre @ [] # post) s)))"
proof -
  have l: "launch_groups env (pre @ [] # post) s = launch_groups env ([] # post) s1"
    using assms by (rule launch_groups_append)
  obtain evs1 where e1: "trace s1 = trace s @ evs1"
    using launch_groups_trace [of env pre s] assms by auto
  obtain f s2 where r: "createProcess env [] 0 s1 = (f, s2)"
    by (cases "createProcess env [] 0 s1")
  obtain rest where t: "trace s2 = trace s1 @ CreateProcess [] 0 # rest"
    using createProcess_trace [of env "[]" 0 s1] r by auto
  have "\<exists>more. trace (snd (launch_groups env ([] # post) s1)) = trace s2 @ more"
  proof (cases "f = Return OK")
    case True
    then have "launch_groups env ([] # post) s1 = launch_groups env post s2"
      using r by simp
    then show ?thesis using launch_groups_trace [of env post s2] by auto
  next
    case False
    then have "launch_groups env ([] # post) s1 = (f, s2)"
      using r by (cases f) auto
    then show ?thesis by simp
  qed
  then obtain more where
    "trace (snd (launch_groups env (pre @ [] # post) s)) = trace s @ evs1 @ CreateProcess [] 0 # rest @ more"
    using l e1 t by auto
  then show ?thesis
    by (simp add: launcher_calls_def map_filter_launcher_append map_filter_simps)
qed

lemma launcher_calls_until_failure:
  assumes "launch_groups env pre s = (Return OK, s1)"
      and "createProcess env g 0 s1 = (f, s2)"
  shows "launcher_calls s s2 = pre @ [g]"
proof -
  obtain evs where e: "trace s1 = trace s @ evs"
      and c: "List.map_filter launcher_call evs = pre"
    using launch_groups_trace [of env pre s] assms(1) by auto
  obtain rest where t: "trace s2 = trace s1 @ CreateProcess g 0 # rest"
      and r: "List.map_filter launcher_call rest = []"
    using createProcess_trace [of env g 0 s1] assms(2) by auto
  have "List.map_filter launcher_call (evs @ CreateProcess g 0 # rest) = pre @ [g]"
    using c r by (simp only: map_filter_launcher_append) (simp add: map_filter_simps)
  with e t show ?thesis
    by (simp add: launcher_calls_def)
qed

lemma failure_stops_launches:
  assumes "launch_groups env pre s = (Return OK, s1)"
      and "createProcess env g 0 s1 = (Return e, s2)" and "e \<noteq> OK"
  shows "launch_groups env (pre @ g # post) s = (Return e, s2)"
  using launch_groups_append [OF assms(1), of "g # post"] assms(2,3) by simp

text \<open>
  Claim C4. \<^verbatim>\<open>createProcesses\<close> does what the specification describes: its result and
  its effects are those of launching, one after the other, the groups that \<^verbatim>\<open>&&\<close>
  separates in the token stream. The groups are a partition of the stream at the
  \<^verbatim>\<open>&&\<close> tokens (joined with \<^verbatim>\<open>&&\<close> they give the stream back, and none contains
  \<^verbatim>\<open>&&\<close>); the launcher is called on an initial segment of the groups, in their order;
  and when the launch of a group fails after all groups before it succeeded, that
  failure is the result, and the launcher was called for these groups and for no
  later one.
\<close>

theorem createProcesses_launches_groups_in_order:
  "createProcesses env tokens s = launch_groups env (groups tokens) s
   \<and> join_groups (groups tokens) = tokens
   \<and> (\<forall>g \<in> set (groups tokens). ''&&'' \<notin> set g)
   \<and> prefix (launcher_calls s (snd (createProcesses env tokens s))) (groups tokens)
   \<and> (\<forall>pre g post s1 e s2.
         groups tokens = pre @ g # post
         \<and> launch_groups env pre s = (Return OK, s1)
         \<and> createProcess env g 0 s1 = (Return e, s2) \<and> e \<noteq> OK
         \<longrightarrow> createProcesses env tokens s = (Return e, s2)
             \<and> launcher_calls s s2 = pre @ [g])"
proof -
  have r: "createProcesses env tokens s = launch_groups env (groups tokens) s"
    by (rule createProcesses_refines)
  have j: "join_groups (groups tokens) = tokens"
    by (rule join_groups_groups)
  have n: "\<forall>g \<in> set (groups tokens). ''&&'' \<notin> set g"
    using groups_no_conj by blast
  have p: "prefix (launcher_calls s (snd (createProcesses env tokens s))) (groups tokens)"
    unfolding r by (rule launcher_calls_launch_groups)
  have f: "createProcesses env tokens s = (Return e, s2) \<and> launcher_calls s s2 = pre @ [g]"
    if "groups tokens = pre @ g # post" and "launch_groups env pre s = (Return OK, s1)"
      and "createProcess env g 0 s1 = (Return e, s2)" and "e \<noteq> OK"
    for pre g post s1 e s2
    using that r failure_stops_launches [of env pre s s1 g e s2 post]
      launcher_calls_until_failure [of env pre s s1 g "Return e" s2]
    by simp
  from r j n p f show ?thesis
    by blast
qed

theorem createProcesses_launches_groups_in_order_witness:
  "groups [''a'', ''&&'', ''b''] = [[''a''], [''b'']]
   \<and> createProcess fork_fails [''a''] 0 startup
       = (Return FORK_ERROR, \<lparr>pids = {}, trace = [CreateProcess [''a''] 0, Fork (- 1)]\<rparr>)
   \<and> createProcesses fork_fails [''a'', ''&&'', ''b''] startup
       = (Return FORK_ERROR, \<lparr>pids = {}, trace = [CreateProcess [''a''] 0, Fork (- 1)]\<rparr>)
   \<and> launcher_calls startup \<lparr>pids = {}, trace = [CreateProcess [''a''] 0, Fork (- 1)]\<rparr>
       = [[''a'']]"
proof -
  let ?s2 = "\<lparr>pids = {}, trace = [CreateProcess [''a''] 0, Fork (- 1)]\<rparr>"
  have g: "groups [''a'', ''&&'', ''b''] = [] @ [''a''] # [[''b'']]"
    by simp
  have p: "launch_groups fork_fails [] startup = (Return OK, startup)"
    by simp
  have c: "createProcess fork_fails [''a''] 0 startup = (Return FORK_ERROR, ?s2)"
    by (simp add: createProcess_def fork_fails_def startup_def log_def)
  have "createProcesses fork_fails [''a'', ''&&'', ''b''] startup = (Return FORK_ERROR, ?s2)
        \<and> launcher_calls startup ?s2 = [] @ [[''a'']]"
    using createProcesses_launches_groups_in_order [of fork_fails "[''a'', ''&&'', ''b'']" startup]
      g p c by blast
  with g c show ?thesis
    by simp
qed

text \<open>
  Claim C9 as stated fails for a stream that ends with \<^verbatim>\<open>&&\<close>: on \<^verbatim>\<open>foo &&\<close>, when
  the launch of \<^verbatim>\<open>foo\<close> fails, \<^verbatim>\<open>createProcesses\<close> returns at once and the launcher is
  never called with the empty token sequence.
\<close>

theorem trailing_conj_not_reached_after_failure:
  "last [''foo'', ''&&''] = ''&&''
   \<and> createProcesses fork_fails [''foo'', ''&&''] startup
       = (Return FORK_ERROR, \<lparr>pids = {}, trace = [CreateProcess [''foo''] 0, Fork (- 1)]\<rparr>)
   \<and> launcher_calls startup (snd (createProcesses fork_fails [''foo'', ''&&''] startup))
       = [[''foo'']]
   \<and> [] \<notin> set (launcher_calls startup
                  (snd (createProcesses fork_fails [''foo'', ''&&''] startup)))"
  by (simp add: launcher_calls_def createProcesses_def createProcess_def fork_fails_def
      startup_def log_def map_filter_simps)

text \<open>
  Claim C9, amended. A stream that begins with \<^verbatim>\<open>&&\<close> always makes
  \<^verbatim>\<open>createProcesses\<close> call the launcher with the empty token sequence. A stream that
  ends with \<^verbatim>\<open>&&\<close>, or has two \<^verbatim>\<open>&&\<close> in a row, does so whenever the launches of
  everything before that \<^verbatim>\<open>&&\<close> succeed (the tokens before it, launched alone, return
  OK). The argument vector of the empty token sequence is the null pointer alone, and
  in the child \<^verbatim>\<open>execvp\<close> is called with a null program name.
\<close>

theorem empty_group_launched_when_reached:
  "[] \<in> set (launcher_calls s (snd (createProcesses env (''&&'' # rest) s)))
   \<and> (createProcesses env a s = (Return OK, s1) \<longrightarrow>
         [] \<in> set (launcher_calls s (snd (createProcesses env (a @ [''&&'']) s)))
       \<and> [] \<in> set (launcher_calls s
                      (snd (createProcesses env (a @ ''&&'' # ''&&'' # b) s))))
   \<and> tokensToArgv [] = [None]
   \<and> fst (createProcess (fork_gives 0) [] priority s) = Undefined NullProgramName"
proof -
  have first: "[] \<in> set (launcher_calls s (snd (createProcesses env (''&&'' # rest) s)))"
    using empty_group_reached [of env "[]" s s "groups rest"]
    by (simp add: createProcesses_refines)
  have later: "[] \<in> set (launcher_calls s (snd (createProcesses env (a @ [''&&'']) s)))
       \<and> [] \<in> set (launcher_calls s
                      (snd (createProcesses env (a @ ''&&'' # ''&&'' # b) s)))"
    if "createProcesses env a s = (Return OK, s1)"
  proof -
    from that have ok: "launch_groups env (groups a) s = (Return OK, s1)"
      by (simp add: createProcesses_refines)
    have "groups (a @ [''&&'']) = groups a @ [] # []"
      using groups_conj [of a "[]"] by simp
    moreover have "groups (a @ ''&&'' # ''&&'' # b) = groups a @ [] # groups b"
      using groups_conj [of a "''&&'' # b"] by simp
    ultimately show ?thesis
      using empty_group_reached [OF ok, of "[]"] empty_group_reached [OF ok, of "groups b"]
      by (simp add: createProcesses_refines)
  qed
  have argv: "tokensToArgv [] = [None]"
    by (simp add: tokensToArgv_def)
  have child: "fst (createProcess (fork_gives 0) [] priority s) = Undefined NullProgramName"
    by (simp add: createProcess_def execvp_def fork_gives_def tokensToArgv_def Let_def)
  from first later argv child show ?thesis
    by blast
qed

theorem empty_group_launched_when_reached_witness:
  "createProcesses (fork_gives 7) [''foo''] startup
     = (Return OK,
        \<lparr>pids = {7}, trace = [CreateProcess [''foo''] 0, Fork 7, SetPriority 7 0]\<rparr>)
   \<and> [] \<in> set (launcher_calls startup
                 (snd (createProcesses (fork_gives 7) [''foo'', ''&&''] startup)))
   \<and> [] \<in> set (launcher_calls startup
                 (snd (createProcesses (fork_gives 7) [''foo'', ''&&'', ''&&'', ''bar''] startup)))
   \<and> launcher_calls startup
        (snd (createProcesses (fork_gives 7) [''foo'', ''&&'', ''&&'', ''bar''] startup))
       = [[''foo''], [], [''bar'']]"
proof -
  let ?s1 = "\<lparr>pids = {7}, trace = [CreateProcess [''foo''] 0, Fork 7, SetPriority 7 0]\<rparr>"
  have h: "createProcesses (fork_gives 7) [''foo''] startup = (Return OK, ?s1)"
    by (simp add: createProcesses_def createProcess_def fork_gives_def startup_def log_def)
  have l: "launcher_calls startup
        (snd (createProcesses (fork_gives 7) [''foo'', ''&&'', ''&&'', ''bar''] startup))
       = [[''foo''], [], [''bar'']]"
    by (simp add: launcher_calls_def createProcesses_def createProcess_def fork_gives_def
        startup_def log_def map_filter_simps)
  from empty_group_launched_when_reached
    [of startup "fork_gives 7" "[''foo'']" "[''foo'']" ?s1 "[''bar'']" 0] h l
  show ?thesis
    by simp
qed

section \<open>A number too large for an int\<close>

text \<open>
  \<^verbatim>\<open>std::stoi\<close> throws \<^verbatim>\<open>std::out_of_range\<close> on \<^verbatim>\<open>99999999999\<close>. The handler of
  \<^verbatim>\<open>executeCommand\<close> catches this exception like the one of an unknown command name,
  so \<^verbatim>\<open>main\<close> goes on to \<^verbatim>\<open>createProcesses\<close> with the whole line: here the launch of
  an external \<^verbatim>\<open>kill\<close> is attempted.
\<close>

lemma kill_out_of_range_falls_through:
  "stoi ''99999999999'' = Inl out_of_range
   \<and> executeCommand fork_fails [''kill'', ''99999999999''] startup
       = (Return UNKNOWN_COMMAND, startup)
   \<and> mainIteration fork_fails ''kill 99999999999'' startup
       = (Return (Some FORK_ERROR),
          \<lparr>pids = {}, trace = [CreateProcess [''kill'', ''99999999999''] 0, Fork (- 1)]\<rparr>)"
proof -
  have s: "stoi ''99999999999'' = Inl out_of_range"
    by (simp add: stoi_def isspace_def isdigit_def)
  have e: "executeCommand fork_fails [''kill'', ''99999999999''] startup
       = (Return UNKNOWN_COMMAND, startup)"
    by (simp add: executeCommand_def terminalCommands_def killCommand_def s)
  have t: "splitStringBySpace ''kill 99999999999'' = [''kill'', ''99999999999'']"
    by (simp add: splitStringBySpace_def getline_def)
  have c: "createProcesses fork_fails [''kill'', ''99999999999''] startup
       = (Return FORK_ERROR,
          \<lparr>pids = {}, trace = [CreateProcess [''kill'', ''99999999999''] 0, Fork (- 1)]\<rparr>)"
    by (simp add: createProcesses_def createProcess_def fork_fails_def startup_def log_def)
  from s e show ?thesis
    by (simp add: mainIteration_def t c)
qed

end
